theory Spec2Isabelle
  imports Main "HOL-Library.Word"
begin

section \<open>Data model of DIPUCachingAllocator.cpp\<close>

text \<open>
  \<open>c10::DeviceType\<close> is an enumeration of the tensor framework. The source names three of
  its values: \<open>CPU\<close> (through \<open>device.is_cpu()\<close>), \<open>CUDA\<close> and the constant
  \<open>dipu::DIPU_DEVICE_TYPE\<close> of \<open>csrc_dipu/base/basedef.h\<close>, the accelerator's device
  type. Every other enumerator is \<open>OtherDeviceType\<close> with its number.
\<close>

datatype DeviceType = CPU | CUDA | DIPU_DEVICE_TYPE | OtherDeviceType nat

text \<open>\<open>c10::Device\<close>: a device type and an index, where index \<open>-1\<close> is "no index".\<close>

record Device =
  type :: DeviceType
  index :: int

definition is_cpu :: "Device \<Rightarrow> bool" where
  "is_cpu device = (type device = CPU)"

definition has_index :: "Device \<Rightarrow> bool" where
  "has_index device = (index device \<noteq> - 1)"

text \<open>\<open>c10::Device(device_type)\<close>, the constructor call of the second \<open>getAllocator\<close>.\<close>

definition Device_of :: "DeviceType \<Rightarrow> Device" where
  "Device_of device_type = \<lparr>type = device_type, index = - 1\<rparr>"

text \<open>
  A \<open>c10::Allocator*\<close> is an address; \<open>nullptr\<close> is address 0. A \<open>DIPUStream\<close> is
  identified by a number (the source only compares streams and stores them in a set).
\<close>

type_synonym Allocator_ptr = nat
type_synonym DIPUStream = nat

abbreviation nullptr :: nat where
  "nullptr \<equiv> 0"

text \<open>
  \<open>std::function<c10::Allocator*(int)>\<close> with its \<open>uint8_t\<close> priority, and the table
  \<open>RegisteredAllocator\<close> of nested \<open>std::map\<close>s.
\<close>

type_synonym allocator_getter = "int \<Rightarrow> Allocator_ptr"
type_synonym AlgorithmEntry = "allocator_getter \<times> 8 word"
type_synonym RegisteredAllocator = "DeviceType \<rightharpoonup> (string \<rightharpoonup> AlgorithmEntry)"

text \<open>
  \<open>c10::DataPtr\<close>: the data address and the context address (\<open>get_context()\<close>), which
  is \<open>nullptr\<close> for an allocation that carries no caching-allocator context.
\<close>

record DataPtr =
  get_data :: nat
  get_context :: nat

text \<open>
  The four statistics of a \<open>CacheAllocator\<close>: \<open>memory_reserved()\<close>, \<open>memory_allocated()\<close>,
  \<open>max_memory_reserved()\<close> and \<open>max_memory_allocated()\<close>.
\<close>

datatype stat = Reserved | Allocated | MaxReserved | MaxAllocated

text \<open>
  Calls that leave this translation unit (the registered constructor, the virtual methods
  of an allocator object, the event primitives) are logged in call order. The entry of a
  constructor call holds the device type and algorithm name it was resolved for, the
  device index passed and the allocator returned.
\<close>

datatype action =
    CallGetter DeviceType string int Allocator_ptr
  | EventRecord DIPUStream
  | EventWait DIPUStream
  | Allocate Allocator_ptr nat
  | EmptyCache Allocator_ptr
  | ReleaseAllMemory Allocator_ptr
  | Query stat Allocator_ptr

text \<open>
  Every way a call of this file ends other than by returning: the two \<open>TORCH_CHECK\<close>
  failures with the values they print, an exception thrown by an external call, and the
  places where the source has undefined behaviour (dereferencing the null registry
  pointer in \<open>createAllocator\<close>, indexing the lookup table out of range, calling
  \<open>allocate\<close> through a null allocator, casting a context that is not a
  \<open>DataPtrContextBase\<close>), plus the failure of the vector's constructor on a negative size.
\<close>

datatype error =
    HigherPriorityRegistered DeviceType string "8 word"
  | NoAllocatorFound DeviceType string
  | Thrown action
  | NullRegistryDereference
  | LookupTableOutOfRange int
  | LookupTableLength int
  | NullAllocatorDereference
  | InvalidContext nat

text \<open>
  The process state the file owns or reads: its globals, the function-local statics of
  \<open>getAllocator\<close>, the recorded-streams set of every \<open>DataPtrContextBase\<close>, and the log.
  \<open>used_allocator\<close> is a \<open>std::set\<close> of pointers: it iterates in ascending address order,
  so it is kept as a strictly ascending list.
\<close>

record world =
  gDIPURegisteredAllocatorPtr :: "RegisteredAllocator option"
  used_allocator :: "Allocator_ptr list"
  device_count :: "int option"
  allocator_lookup_table :: "Allocator_ptr list option"
  streams :: "nat \<rightharpoonup> DIPUStream set"
  calls :: "action list"

text \<open>
  What the file reads from outside and does not change: the two environment variables,
  the device proxy, the current and default stream, the dynamic type of an allocator
  object (\<open>dynamic_cast<CacheAllocator*>\<close>), and the behaviour of the external calls as a
  function of the calls made so far.
\<close>

record ext =
  getenv_DIPU_DEVICE_MEMCACHING_ALGORITHM :: "string option"
  getenv_DIPU_HOST_MEMCACHING_ALGORITHM :: "string option"
  getDeviceCount :: int
  current_device :: int
  getCurrentDIPUStream :: DIPUStream
  getDefaultDIPUStream :: DIPUStream
  is_CacheAllocator :: "Allocator_ptr \<Rightarrow> bool"
  throws :: "action list \<Rightarrow> action \<Rightarrow> bool"
  allocate_result :: "action list \<Rightarrow> Allocator_ptr \<Rightarrow> nat \<Rightarrow> DataPtr"
  stat_value :: "action list \<Rightarrow> stat \<Rightarrow> Allocator_ptr \<Rightarrow> nat"

definition init_world :: world where
  "init_world = \<lparr>gDIPURegisteredAllocatorPtr = None, used_allocator = [],
     device_count = None, allocator_lookup_table = None, streams = Map.empty, calls = []\<rparr>"

section \<open>The algorithm registry\<close>

text \<open>
  The two algorithm names are read from the environment when the library is loaded,
  with \<open>"BF"\<close> as the default.
\<close>

definition dipu_default_memcaching_algorithm :: string where
  "dipu_default_memcaching_algorithm = ''BF''"

definition dipu_device_memcaching_algorithm :: "ext \<Rightarrow> string" where
  "dipu_device_memcaching_algorithm x =
     (case getenv_DIPU_DEVICE_MEMCACHING_ALGORITHM x of
        Some env \<Rightarrow> env | None \<Rightarrow> dipu_default_memcaching_algorithm)"

definition dipu_host_memcaching_algorithm :: "ext \<Rightarrow> string" where
  "dipu_host_memcaching_algorithm x =
     (case getenv_DIPU_HOST_MEMCACHING_ALGORITHM x of
        Some env \<Rightarrow> env | None \<Rightarrow> dipu_default_memcaching_algorithm)"

text \<open>
  \<open>m[device_type]\<close> of \<open>std::map\<close>: the inner map stored there, after inserting an empty
  one when the key was absent.
\<close>

definition at_device_type ::
  "RegisteredAllocator \<Rightarrow> DeviceType \<Rightarrow> (string \<rightharpoonup> AlgorithmEntry) \<times> RegisteredAllocator" where
  "at_device_type m device_type =
     (case m device_type of
        Some inner \<Rightarrow> (inner, m)
      | None \<Rightarrow> (Map.empty, m(device_type \<mapsto> Map.empty)))"

text \<open>
  \<open>setAllocator\<close>: the registry is created on the first call; a new name is stored, a
  name already present is overwritten only by a strictly higher priority, and anything
  else fails the \<open>TORCH_CHECK\<close>. The result pairs the outcome with the state left behind.
\<close>

definition setAllocator ::
  "string \<Rightarrow> DeviceType \<Rightarrow> allocator_getter \<Rightarrow> 8 word \<Rightarrow> world \<Rightarrow> (error + unit) \<times> world" where
  "setAllocator name device_type allocator_getter priority w =
     (let reg0 = (case gDIPURegisteredAllocatorPtr w of
                    None \<Rightarrow> Map.empty | Some m \<Rightarrow> m);
          (inner, reg) = at_device_type reg0 device_type
      in case inner name of
           None \<Rightarrow>
             (Inr (), w\<lparr>gDIPURegisteredAllocatorPtr :=
                          Some (reg(device_type \<mapsto> inner(name \<mapsto> (allocator_getter, priority))))\<rparr>)
         | Some entry \<Rightarrow>
             if snd entry < priority
             then (Inr (), w\<lparr>gDIPURegisteredAllocatorPtr :=
                          Some (reg(device_type \<mapsto> inner(name \<mapsto> (allocator_getter, priority))))\<rparr>)
             else (Inl (HigherPriorityRegistered device_type name priority),
                   w\<lparr>gDIPURegisteredAllocatorPtr := Some reg\<rparr>))"

text \<open>
  The entry the registry holds for a device type and a name: what
  \<open>gDIPURegisteredAllocator[device_type].count(name) > 0\<close> tests and
  \<open>gDIPURegisteredAllocator[device_type][name]\<close> then reads.
\<close>

definition registered :: "world \<Rightarrow> DeviceType \<Rightarrow> string \<Rightarrow> AlgorithmEntry option" where
  "registered w device_type name =
     (case gDIPURegisteredAllocatorPtr w of
        None \<Rightarrow> None
      | Some m \<Rightarrow> (case m device_type of None \<Rightarrow> None | Some inner \<Rightarrow> inner name))"

section \<open>The per-device allocator cache\<close>

text \<open>Sequencing of two steps, the second skipped when the first one raised.\<close>

definition and_then ::
  "(error + 'a) \<times> world \<Rightarrow> ('a \<Rightarrow> world \<Rightarrow> (error + 'b) \<times> world) \<Rightarrow> (error + 'b) \<times> world" where
  "and_then r f = (case r of (Inl e, w) \<Rightarrow> (Inl e, w) | (Inr v, w) \<Rightarrow> f v w)"

text \<open>
  An external call that may throw: it is logged, and whether it throws is decided by the
  environment from the calls made before it.
\<close>

definition call_ext :: "ext \<Rightarrow> action \<Rightarrow> world \<Rightarrow> (error + unit) \<times> world" where
  "call_ext x a w =
     (if throws x (calls w) a
      then (Inl (Thrown a), w\<lparr>calls := calls w @ [a]\<rparr>)
      else (Inr (), w\<lparr>calls := calls w @ [a]\<rparr>))"

text \<open>\<open>used_allocator.insert(allocator)\<close> on the ascending list.\<close>

definition set_insert :: "Allocator_ptr \<Rightarrow> Allocator_ptr list \<Rightarrow> Allocator_ptr list" where
  "set_insert allocator xs = (if allocator \<in> set xs then xs else insort allocator xs)"

definition getDeviceIndex :: "ext \<Rightarrow> Device \<Rightarrow> int \<Rightarrow> int" where
  "getDeviceIndex x device host_index =
     (if is_cpu device then host_index
      else if has_index device then index device
      else current_device x)"

text \<open>The local \<open>algorithm\<close> of \<open>createAllocator\<close>.\<close>

definition algorithm_of :: "ext \<Rightarrow> DeviceType \<Rightarrow> string" where
  "algorithm_of x device_type =
     (if device_type = DIPU_DEVICE_TYPE then dipu_device_memcaching_algorithm x
      else dipu_host_memcaching_algorithm x)"

text \<open>
  \<open>createAllocator\<close>. The registered constructor is a function of the device index; its
  call is logged with the allocator it returns.
\<close>

definition createAllocator :: "ext \<Rightarrow> Device \<Rightarrow> world \<Rightarrow> (error + Allocator_ptr) \<times> world" where
  "createAllocator x device w =
     (let device_type = type device
      in case gDIPURegisteredAllocatorPtr w of
           None \<Rightarrow> (Inl NullRegistryDereference, w)
         | Some reg0 \<Rightarrow>
             (let algorithm = algorithm_of x device_type;
                  (inner, reg) = at_device_type reg0 device_type;
                  w1 = w\<lparr>gDIPURegisteredAllocatorPtr := Some reg\<rparr>
              in (case inner algorithm of
                    Some entry \<Rightarrow>
                      (let allocator_geter = fst entry;
                           device_index = getDeviceIndex x device 0;
                           allocator = allocator_geter device_index;
                           w2 = w1\<lparr>calls := calls w1 @
                                  [CallGetter device_type algorithm device_index allocator]\<rparr>
                       in if device_type = DIPU_DEVICE_TYPE
                          then (Inr allocator,
                                w2\<lparr>used_allocator := set_insert allocator (used_allocator w2)\<rparr>)
                          else (Inr allocator, w2))
                  | None \<Rightarrow>
                      (Inl (NoAllocatorFound device_type (dipu_device_memcaching_algorithm x)),
                       w1))))"

text \<open>
  The function-local statics of \<open>getAllocator\<close> are initialised by the first call:
  \<open>device_count\<close> from the device proxy, the table with \<open>device_count + 1\<close> null slots.
\<close>

definition init_statics :: "ext \<Rightarrow> world \<Rightarrow> (error + int \<times> Allocator_ptr list) \<times> world" where
  "init_statics x w =
     (let dc = (case device_count w of Some c \<Rightarrow> c | None \<Rightarrow> getDeviceCount x);
          w1 = w\<lparr>device_count := Some dc\<rparr>
      in case allocator_lookup_table w1 of
           Some table \<Rightarrow> (Inr (dc, table), w1)
         | None \<Rightarrow>
             if dc + 1 < 0 then (Inl (LookupTableLength (dc + 1)), w1)
             else (Inr (dc, replicate (nat (dc + 1)) nullptr),
                   w1\<lparr>allocator_lookup_table := Some (replicate (nat (dc + 1)) nullptr)\<rparr>))"

definition getAllocator :: "ext \<Rightarrow> Device \<Rightarrow> world \<Rightarrow> (error + Allocator_ptr) \<times> world" where
  "getAllocator x device w =
     and_then (init_statics x w) (\<lambda>(host_index, table) w1.
       let device_index = getDeviceIndex x device host_index
       in if device_index < 0 \<or> int (length table) \<le> device_index
          then (Inl (LookupTableOutOfRange device_index), w1)
          else if table ! nat device_index = nullptr
          then and_then (createAllocator x device w1) (\<lambda>allocator w2.
                 (Inr allocator,
                  w2\<lparr>allocator_lookup_table := Some (table[nat device_index := allocator])\<rparr>))
          else (Inr (table ! nat device_index), w1))"

definition getAllocator_type :: "ext \<Rightarrow> DeviceType \<Rightarrow> world \<Rightarrow> (error + Allocator_ptr) \<times> world" where
  "getAllocator_type x device_type w = getAllocator x (Device_of device_type) w"

section \<open>The global sweeps, recordStream and the proxy\<close>

definition dynamic_cast_CacheAllocator :: "ext \<Rightarrow> Allocator_ptr \<Rightarrow> Allocator_ptr" where
  "dynamic_cast_CacheAllocator x allocator =
     (if allocator \<noteq> nullptr \<and> is_CacheAllocator x allocator then allocator else nullptr)"

text \<open>
  The lambdas \<open>empty_allocator_cache\<close> and \<open>release_allocator_memory\<close>, without the debug
  output of \<open>DIPU_DEBUG_ALLOCATOR\<close>.
\<close>

definition empty_allocator_cache :: "ext \<Rightarrow> Allocator_ptr \<Rightarrow> world \<Rightarrow> (error + unit) \<times> world" where
  "empty_allocator_cache x allocator w =
     (let cached_allocator = dynamic_cast_CacheAllocator x allocator
      in if cached_allocator \<noteq> nullptr then call_ext x (EmptyCache cached_allocator) w
         else (Inr (), w))"

definition release_allocator_memory :: "ext \<Rightarrow> Allocator_ptr \<Rightarrow> world \<Rightarrow> (error + unit) \<times> world" where
  "release_allocator_memory x allocator w =
     (let cached_allocator = dynamic_cast_CacheAllocator x allocator
      in if cached_allocator \<noteq> nullptr then call_ext x (ReleaseAllMemory cached_allocator) w
         else (Inr (), w))"

text \<open>
  \<open>for (auto& allocator : used_allocator) f(allocator);\<close> The loop has no handler, so an
  exception thrown by \<open>f\<close> leaves the loop.
\<close>

fun for_each ::
  "(Allocator_ptr \<Rightarrow> world \<Rightarrow> (error + unit) \<times> world) \<Rightarrow> Allocator_ptr list \<Rightarrow> world
     \<Rightarrow> (error + unit) \<times> world" where
  "for_each f [] w = (Inr (), w)"
| "for_each f (allocator # rest) w = and_then (f allocator w) (\<lambda>_ w1. for_each f rest w1)"

definition emptyCachedMem :: "ext \<Rightarrow> world \<Rightarrow> (error + unit) \<times> world" where
  "emptyCachedMem x w = for_each (empty_allocator_cache x) (used_allocator w) w"

definition releaseAllDeviceMem :: "ext \<Rightarrow> world \<Rightarrow> (error + unit) \<times> world" where
  "releaseAllDeviceMem x w = for_each (release_allocator_memory x) (used_allocator w) w"

text \<open>
  \<open>memoryReserved\<close>, \<open>memoryAllocated\<close>, \<open>maxMemoryReserved\<close> and \<open>maxMemoryAllocated\<close> have
  one body: the allocator of the device is looked up, and the statistic is read from it
  when it is a \<open>CacheAllocator\<close>; otherwise the result is 0.
\<close>

definition memory_stat :: "stat \<Rightarrow> ext \<Rightarrow> Device \<Rightarrow> world \<Rightarrow> (error + nat) \<times> world" where
  "memory_stat which x device w =
     and_then (getAllocator x device w) (\<lambda>allocator w1.
       let cached_allocator = dynamic_cast_CacheAllocator x allocator
       in if cached_allocator \<noteq> nullptr
          then and_then (call_ext x (Query which cached_allocator) w1)
                 (\<lambda>_ w2. (Inr (stat_value x (calls w1) which cached_allocator), w2))
          else (Inr 0, w1))"

definition memoryReserved :: "ext \<Rightarrow> Device \<Rightarrow> world \<Rightarrow> (error + nat) \<times> world" where
  "memoryReserved = memory_stat Reserved"

definition memoryAllocated :: "ext \<Rightarrow> Device \<Rightarrow> world \<Rightarrow> (error + nat) \<times> world" where
  "memoryAllocated = memory_stat Allocated"

definition maxMemoryReserved :: "ext \<Rightarrow> Device \<Rightarrow> world \<Rightarrow> (error + nat) \<times> world" where
  "maxMemoryReserved = memory_stat MaxReserved"

definition maxMemoryAllocated :: "ext \<Rightarrow> Device \<Rightarrow> world \<Rightarrow> (error + nat) \<times> world" where
  "maxMemoryAllocated = memory_stat MaxAllocated"

text \<open>
  \<open>recordStream\<close>: a null context is skipped; any other context is taken to be a
  \<open>DataPtrContextBase\<close> and the stream is inserted into its set.
\<close>

definition recordStream :: "DataPtr \<Rightarrow> DIPUStream \<Rightarrow> world \<Rightarrow> (error + unit) \<times> world" where
  "recordStream ptr stream w =
     (let ctx = get_context ptr
      in if ctx \<noteq> nullptr
         then (case streams w ctx of
                 Some recorded \<Rightarrow> (Inr (), w\<lparr>streams := (streams w)(ctx \<mapsto> insert stream recorded)\<rparr>)
               | None \<Rightarrow> (Inl (InvalidContext ctx), w))
         else (Inr (), w))"

text \<open>
  \<open>DIPUDeviceCachingProxy::allocate(size)\<close>; the member \<open>device_type_\<close> is the argument
  \<open>proxy_device_type\<close>, the size is \<open>nbytes\<close>. The two lines written to \<open>std::cout\<close> and
  the construction of the \<open>DIPUEvent\<close> object are left out. \<open>delegate\<close> is the return statement
  \<open>getAllocator(device_type_)->allocate(size)\<close>.
\<close>

definition delegate :: "ext \<Rightarrow> DeviceType \<Rightarrow> nat \<Rightarrow> world \<Rightarrow> (error + DataPtr) \<times> world" where
  "delegate x proxy_device_type nbytes w =
     and_then (getAllocator_type x proxy_device_type w) (\<lambda>allocator w3.
       if allocator = nullptr then (Inl NullAllocatorDereference, w3)
       else and_then (call_ext x (Allocate allocator nbytes) w3)
              (\<lambda>_ w4. (Inr (allocate_result x (calls w3) allocator nbytes), w4)))"

definition allocate :: "ext \<Rightarrow> DeviceType \<Rightarrow> nat \<Rightarrow> world \<Rightarrow> (error + DataPtr) \<times> world" where
  "allocate x proxy_device_type nbytes w =
     (let currentStream = getCurrentDIPUStream x;
          defaultStream = getDefaultDIPUStream x
      in and_then
           (if currentStream \<noteq> defaultStream
            then and_then (call_ext x (EventRecord defaultStream) w)
                   (\<lambda>_ w1. call_ext x (EventWait currentStream) w1)
            else (Inr (), w))
           (\<lambda>_ w2. delegate x proxy_device_type nbytes w2))"

section \<open>Sequences of calls\<close>

text \<open>
  The entry points of the file. A process is a sequence of such calls, each made in the
  environment of its moment (the current device and stream may differ from call to call);
  a call that raises leaves the state it had reached, and the process goes on.
\<close>

datatype call =
    Call_setAllocator string DeviceType allocator_getter "8 word"
  | Call_getAllocator Device
  | Call_emptyCachedMem
  | Call_releaseAllDeviceMem
  | Call_memoryReserved Device
  | Call_memoryAllocated Device
  | Call_maxMemoryReserved Device
  | Call_maxMemoryAllocated Device
  | Call_recordStream DataPtr DIPUStream
  | Call_allocate DeviceType nat

fun perform :: "ext \<Rightarrow> call \<Rightarrow> world \<Rightarrow> world" where
  "perform x (Call_setAllocator name device_type allocator_getter priority) w =
     snd (setAllocator name device_type allocator_getter priority w)"
| "perform x (Call_getAllocator device) w = snd (getAllocator x device w)"
| "perform x Call_emptyCachedMem w = snd (emptyCachedMem x w)"
| "perform x Call_releaseAllDeviceMem w = snd (releaseAllDeviceMem x w)"
| "perform x (Call_memoryReserved device) w = snd (memoryReserved x device w)"
| "perform x (Call_memoryAllocated device) w = snd (memoryAllocated x device w)"
| "perform x (Call_maxMemoryReserved device) w = snd (maxMemoryReserved x device w)"
| "perform x (Call_maxMemoryAllocated device) w = snd (maxMemoryAllocated x device w)"
| "perform x (Call_recordStream ptr stream) w = snd (recordStream ptr stream w)"
| "perform x (Call_allocate proxy_device_type nbytes) w =
     snd (allocate x proxy_device_type nbytes w)"

fun run :: "(ext \<times> call) list \<Rightarrow> world \<Rightarrow> world" where
  "run [] w = w"
| "run ((x, c) # rest) w = run rest (perform x c w)"

text \<open>
  Slot \<open>i\<close> of the lookup table of \<open>getAllocator\<close> holds allocator \<open>a\<close>, the statics being
  initialised with device count \<open>dc\<close>.
\<close>

definition slot_holds :: "world \<Rightarrow> int \<Rightarrow> nat \<Rightarrow> Allocator_ptr \<Rightarrow> bool" where
  "slot_holds w dc i a =
     (device_count w = Some dc \<and>
      (case allocator_lookup_table w of
         Some table \<Rightarrow> i < length table \<and> table ! i = a
       | None \<Rightarrow> False))"

section \<open>Predicates on the state and concrete instances\<close>

text \<open>A log entry of a constructor call.\<close>

fun is_constructor_call :: "action \<Rightarrow> bool" where
  "is_constructor_call (CallGetter device_type algorithm device_index allocator) = True"
| "is_constructor_call _ = False"

text \<open>
  The log entry says that allocator \<open>a\<close> was returned by a constructor resolved for the
  accelerator device type.
\<close>

fun created_for_accelerator :: "Allocator_ptr \<Rightarrow> action \<Rightarrow> bool" where
  "created_for_accelerator a (CallGetter device_type algorithm device_index allocator) =
     (device_type = DIPU_DEVICE_TYPE \<and> allocator = a)"
| "created_for_accelerator a _ = False"


text \<open>
  The invariant of \<open>used_allocator\<close>: each member was returned by a constructor that
  \<open>createAllocator\<close> resolved for \<open>DIPU_DEVICE_TYPE\<close>.
\<close>

definition accelerator_only :: "world \<Rightarrow> bool" where
  "accelerator_only w =
     (\<forall>a \<in> set (used_allocator w). \<exists>c \<in> set (calls w). created_for_accelerator a c)"

text \<open>
  A concrete process: three accelerator devices, no environment variable set, the caller
  on stream 7 while the default stream is 0, every allocator a \<open>CacheAllocator\<close>, and
  the allocator at address 2 throwing from \<open>empty_cache\<close> and \<open>release_all_memory\<close>. The
  constructor \<open>sample_getter\<close> puts the allocator of device \<open>i\<close> at address \<open>i + 1\<close>,
  \<open>other_getter\<close> at address \<open>i + 101\<close>.
\<close>

definition sample_getter :: allocator_getter where
  "sample_getter device_index = nat device_index + 1"

definition other_getter :: allocator_getter where
  "other_getter device_index = nat device_index + 101"

definition sample_ext :: ext where
  "sample_ext = \<lparr>getenv_DIPU_DEVICE_MEMCACHING_ALGORITHM = None,
     getenv_DIPU_HOST_MEMCACHING_ALGORITHM = None,
     getDeviceCount = 3, current_device = 0,
     getCurrentDIPUStream = 7, getDefaultDIPUStream = 0,
     is_CacheAllocator = (\<lambda>allocator. True),
     throws = (\<lambda>history a. a = EmptyCache 2 \<or> a = ReleaseAllMemory 2),
     allocate_result =
       (\<lambda>history allocator nbytes. \<lparr>get_data = 4096, get_context = nullptr\<rparr>),
     stat_value = (\<lambda>history which allocator. 0)\<rparr>"

definition DIPU_device :: "int \<Rightarrow> Device" where
  "DIPU_device i = \<lparr>type = DIPU_DEVICE_TYPE, index = i\<rparr>"

definition host_device :: Device where
  "host_device = \<lparr>type = CPU, index = - 1\<rparr>"

text \<open>The state after \<open>setAllocator("BF", DIPU_DEVICE_TYPE, sample_getter, 1)\<close>.\<close>

definition registered_world :: world where
  "registered_world = snd (setAllocator ''BF'' DIPU_DEVICE_TYPE sample_getter 1 init_world)"

text \<open>The state after \<open>getAllocator\<close> has then been called for devices 0, 1 and 2.\<close>

definition sample_world :: world where
  "sample_world =
     snd (getAllocator sample_ext (DIPU_device 2)
       (snd (getAllocator sample_ext (DIPU_device 1)
         (snd (getAllocator sample_ext (DIPU_device 0) registered_world)))))"

text \<open>
  A process that registers \<open>"BF"\<close> for the accelerator and the host, asks for the allocators
  of device 1 and of the host, allocates through the proxy and sweeps.
\<close>

definition sample_calls :: "(ext \<times> call) list" where
  "sample_calls =
     [(sample_ext, Call_setAllocator ''BF'' DIPU_DEVICE_TYPE sample_getter 1),
      (sample_ext, Call_setAllocator ''BF'' CPU other_getter 1),
      (sample_ext, Call_getAllocator (DIPU_device 1)),
      (sample_ext, Call_getAllocator host_device),
      (sample_ext, Call_allocate DIPU_DEVICE_TYPE 64),
      (sample_ext, Call_emptyCachedMem)]"

section \<open>The caching allocator behind the interface\<close>

text \<open>
  Modelled from the spec: the concrete caching algorithms (the classes derived from
  \<open>CacheAllocator\<close>, declared in \<open>DIPUCachingAllocator.h\<close>) are not part of the sources at
  hand; only \<open>recordStream\<close>, which fills the recorded-streams set, is. The definitions of
  this section follow sections 3, 4.3, 4.4 and 5 of the specification. A stream is an
  ordered queue of work: \<open>enqueued\<close> counts the work items put on it, \<open>retired\<close> those it
  has finished.
\<close>

record stream_clock =
  enqueued :: "DIPUStream \<Rightarrow> nat"
  retired :: "DIPUStream \<Rightarrow> nat"

text \<open>
  Modelled from the spec: an element of a block's recorded-streams set, the stream
  together with its recording point (the number of work items enqueued on the stream when
  it was recorded).
\<close>

type_synonym recording = "DIPUStream \<times> nat"

text \<open>
  Modelled from the spec: a block of the allocator's pool is not yet reserved from the
  device, in use by a caller (with its recorded streams), freed with its reuse deferred,
  or in the free pool.
\<close>

datatype block_state =
    Unreserved
  | Live "recording list"
  | Deferred "recording list"
  | Pooled "recording list"

text \<open>
  Modelled from the spec: the allocator owns the blocks \<open>0, ..., reserved_blocks - 1\<close>,
  each with its size and state, and queries the device runtime's stream clock.
\<close>

record CachingAllocator =
  block_size :: "nat \<Rightarrow> nat"
  block_state :: "nat \<Rightarrow> block_state"
  reserved_blocks :: nat
  clock :: stream_clock








text \<open>
  Modelled from the spec: \<open>free(handle)\<close> places the block back in the free pool,
  "deferred until the block's recorded-streams set has fully retired".
\<close>

definition cache_free :: "nat \<Rightarrow> CachingAllocator \<Rightarrow> CachingAllocator" where
  "cache_free b st =
     (case block_state st b of
        Live recs \<Rightarrow> st\<lparr>block_state := (block_state st)(b := Deferred recs)\<rparr>
      | _ \<Rightarrow> st)"










section \<open>Evaluation of the concrete instances\<close>

lemmas eval_defs = setAllocator_def init_world_def at_device_type_def getAllocator_def
  init_statics_def and_then_def createAllocator_def getDeviceIndex_def is_cpu_def has_index_def
  algorithm_of_def dipu_device_memcaching_algorithm_def dipu_host_memcaching_algorithm_def
  dipu_default_memcaching_algorithm_def set_insert_def sample_ext_def sample_getter_def
  other_getter_def DIPU_device_def host_device_def registered_world_def sample_world_def
  Let_def registered_def

lemma registered_world_registry:
  "gDIPURegisteredAllocatorPtr registered_world \<noteq> None"
  "registered registered_world DIPU_DEVICE_TYPE ''BF'' = Some (sample_getter, 1)"
  "registered registered_world CPU ''BF'' = None"
  "fst (setAllocator ''BF'' DIPU_DEVICE_TYPE sample_getter 1 init_world) = Inr ()"
  by (simp_all add: eval_defs)




section \<open>The algorithm registry\<close>

lemma registered_setAllocator:
  assumes "fst (setAllocator name device_type g p w) = Inr ()"
  shows "registered (snd (setAllocator name device_type g p w)) device_type name = Some (g, p)"
  using assms
  by (auto simp: setAllocator_def registered_def at_device_type_def Let_def
           split: option.splits if_splits prod.splits)

lemma setAllocator_raises:
  assumes "registered w device_type name = Some (g, p)" and "p' \<le> p"
  shows "setAllocator name device_type g' p' w =
           (Inl (HigherPriorityRegistered device_type name p'), w)"
  using assms
  by (auto simp: setAllocator_def registered_def at_device_type_def Let_def
           split: option.splits if_splits prod.splits)

lemma setAllocator_overwrites:
  assumes "registered w device_type name = Some (g, p)" and "p < p'"
  shows "fst (setAllocator name device_type g' p' w) = Inr ()"
  using assms
  by (auto simp: setAllocator_def registered_def at_device_type_def Let_def
           split: option.splits if_splits prod.splits)

lemma createAllocator_resolves:
  assumes "registered w (type device) (algorithm_of x (type device)) = Some (g, p)"
  shows "fst (createAllocator x device w) = Inr (g (getDeviceIndex x device 0))"
  using assms
  by (auto simp: createAllocator_def registered_def at_device_type_def Let_def
           split: option.splits prod.splits)

text \<open>
  C3. A name registered with priority \<open>p1\<close> and then again, for the same device type, with
  a strictly higher priority \<open>p2\<close>: the second call returns normally, the registry entry of
  the name is the constructor and priority of the second call, and \<open>createAllocator\<close> for
  a device of that type whose selected algorithm is the name invokes that constructor.
\<close>

theorem setAllocator_higher_priority_replaces:
  assumes "fst (setAllocator name device_type g1 p1 w) = Inr ()"
      and "p1 < p2"
      and "w2 = snd (setAllocator name device_type g2 p2
                  (snd (setAllocator name device_type g1 p1 w)))"
      and "type device = device_type"
      and "algorithm_of x device_type = name"
  shows "fst (setAllocator name device_type g2 p2
            (snd (setAllocator name device_type g1 p1 w))) = Inr ()
       \<and> registered w2 device_type name = Some (g2, p2)
       \<and> fst (createAllocator x device w2) = Inr (g2 (getDeviceIndex x device 0))"
proof -
  let ?w1 = "snd (setAllocator name device_type g1 p1 w)"
  have r1: "registered ?w1 device_type name = Some (g1, p1)"
    using assms(1) by (rule registered_setAllocator)
  have ok: "fst (setAllocator name device_type g2 p2 ?w1) = Inr ()"
    using r1 assms(2) by (rule setAllocator_overwrites)
  then have r2: "registered w2 device_type name = Some (g2, p2)"
    unfolding assms(3) by (rule registered_setAllocator)
  have "fst (createAllocator x device w2) = Inr (g2 (getDeviceIndex x device 0))"
    using r2 assms(4,5) by (auto intro: createAllocator_resolves)
  with ok r2 show ?thesis by simp
qed

theorem setAllocator_higher_priority_replaces_witness:
  "fst (setAllocator ''BF'' DIPU_DEVICE_TYPE sample_getter 1 init_world) = Inr ()
   \<and> (1 :: 8 word) < 2
   \<and> fst (setAllocator ''BF'' DIPU_DEVICE_TYPE other_getter 2 registered_world) = Inr ()
   \<and> registered (snd (setAllocator ''BF'' DIPU_DEVICE_TYPE other_getter 2 registered_world))
       DIPU_DEVICE_TYPE ''BF'' = Some (other_getter, 2)
   \<and> fst (createAllocator sample_ext (DIPU_device 0)
       (snd (setAllocator ''BF'' DIPU_DEVICE_TYPE other_getter 2 registered_world))) = Inr 101"
proof -
  have h1: "fst (setAllocator ''BF'' DIPU_DEVICE_TYPE sample_getter 1 init_world) = Inr ()"
    by (rule registered_world_registry)
  have h2: "(1 :: 8 word) < 2" by simp
  have h4: "type (DIPU_device 0) = DIPU_DEVICE_TYPE" by (simp add: DIPU_device_def)
  have h5: "algorithm_of sample_ext DIPU_DEVICE_TYPE = ''BF''" by (simp add: eval_defs)
  have g: "other_getter (getDeviceIndex sample_ext (DIPU_device 0) 0) = 101"
    by (simp add: eval_defs)
  show ?thesis
    using h1 h2 g
      setAllocator_higher_priority_replaces [OF h1 h2 refl h4 h5, where ?g2.0 = other_getter]
    by (simp add: registered_world_def)
qed

text \<open>
  C4, as the code has it. A name registered with priority \<open>p2\<close> and then again, for the
  same device type, with a priority \<open>p1 \<le> p2\<close>: the second call does not return normally,
  it raises; the state is left as it was, so the entry of priority \<open>p2\<close> stays active.
\<close>

theorem setAllocator_lower_priority_keeps_entry:
  assumes "registered w device_type name = Some (g2, p2)" and "p1 \<le> p2"
  shows "fst (setAllocator name device_type g1 p1 w) \<noteq> Inr ()
       \<and> snd (setAllocator name device_type g1 p1 w) = w
       \<and> registered (snd (setAllocator name device_type g1 p1 w)) device_type name
           = Some (g2, p2)"
  using assms setAllocator_raises [OF assms, of g1] by simp

theorem setAllocator_lower_priority_keeps_entry_witness:
  "registered registered_world DIPU_DEVICE_TYPE ''BF'' = Some (sample_getter, 1)
   \<and> (1 :: 8 word) \<le> 1
   \<and> fst (setAllocator ''BF'' DIPU_DEVICE_TYPE other_getter 1 registered_world) \<noteq> Inr ()
   \<and> snd (setAllocator ''BF'' DIPU_DEVICE_TYPE other_getter 1 registered_world)
       = registered_world
   \<and> registered (snd (setAllocator ''BF'' DIPU_DEVICE_TYPE other_getter 1 registered_world))
       DIPU_DEVICE_TYPE ''BF'' = Some (sample_getter, 1)"
proof -
  have h1: "registered registered_world DIPU_DEVICE_TYPE ''BF'' = Some (sample_getter, 1)"
    by (rule registered_world_registry)
  have h2: "(1 :: 8 word) \<le> 1" by simp
  show ?thesis
    using h1 h2 setAllocator_lower_priority_keeps_entry [OF h1 h2, of other_getter]
    by simp
qed

text \<open>
  Counterexample to C4 as the specification states it: after \<open>"BF"\<close> is registered for the accelerator with priority 5,
  registering it again with priority 3 does not complete without error.
\<close>

theorem setAllocator_lower_priority_counterexample:
  "fst (setAllocator ''BF'' DIPU_DEVICE_TYPE sample_getter 5 init_world) = Inr ()
   \<and> fst (setAllocator ''BF'' DIPU_DEVICE_TYPE other_getter 3
        (snd (setAllocator ''BF'' DIPU_DEVICE_TYPE sample_getter 5 init_world)))
     = Inl (HigherPriorityRegistered DIPU_DEVICE_TYPE ''BF'' 3)"
  by (simp add: setAllocator_def init_world_def at_device_type_def)

text \<open>
  C5. When the registry holds an entry for a device type and a name, \<open>setAllocator\<close> for
  the same device type and name with a priority lower than or equal to the entry's fails
  the \<open>TORCH_CHECK\<close>; the error carries the device type, the name and the priority of the
  rejected call.
\<close>

theorem setAllocator_lower_or_equal_priority_fails:
  assumes "registered w device_type name = Some (g, p)" and "p' \<le> p"
  shows "fst (setAllocator name device_type g' p' w)
           = Inl (HigherPriorityRegistered device_type name p')"
  using assms
  by (auto simp: setAllocator_def registered_def at_device_type_def Let_def
           split: option.splits if_splits prod.splits)

theorem setAllocator_lower_or_equal_priority_fails_witness:
  "registered registered_world DIPU_DEVICE_TYPE ''BF'' = Some (sample_getter, 1)
   \<and> (0 :: 8 word) \<le> 1
   \<and> fst (setAllocator ''BF'' DIPU_DEVICE_TYPE other_getter 0 registered_world)
       = Inl (HigherPriorityRegistered DIPU_DEVICE_TYPE ''BF'' 0)"
proof -
  have h1: "registered registered_world DIPU_DEVICE_TYPE ''BF'' = Some (sample_getter, 1)"
    by (rule registered_world_registry)
  have h2: "(0 :: 8 word) \<le> 1" by simp
  show ?thesis
    using h1 h2 setAllocator_lower_or_equal_priority_fails [OF h1 h2, of other_getter]
    by simp
qed

section \<open>The per-device allocator cache\<close>

lemma getAllocator_statics:
  assumes "getAllocator x device w = (Inr a, w1)"
  shows "\<exists>dc table. device_count w1 = Some dc \<and> allocator_lookup_table w1 = Some table
     \<and> 0 \<le> getDeviceIndex x device dc \<and> getDeviceIndex x device dc < int (length table)
     \<and> table ! nat (getDeviceIndex x device dc) = a"
  using assms
  by (auto simp: getAllocator_def init_statics_def and_then_def createAllocator_def Let_def
           split: option.splits prod.splits if_splits sum.splits)



section \<open>recordStream\<close>

text \<open>
  C10. For a data pointer whose context is null, \<open>recordStream\<close> with any stream returns
  normally and leaves the whole state as it was.
\<close>

theorem recordStream_null_context:
  assumes "get_context ptr = nullptr"
  shows "recordStream ptr stream w = (Inr (), w)"
  using assms by (simp add: recordStream_def)

theorem recordStream_null_context_witness:
  "get_context \<lparr>get_data = 4096, get_context = nullptr\<rparr> = nullptr
   \<and> recordStream \<lparr>get_data = 4096, get_context = nullptr\<rparr> 7 sample_world
       = (Inr (), sample_world)"
proof -
  have h: "get_context \<lparr>get_data = 4096, get_context = nullptr\<rparr> = nullptr" by simp
  show ?thesis
    using h recordStream_null_context [OF h, of 7 sample_world] by simp
qed

section \<open>What each operation adds to the log and to \<open>used_allocator\<close>\<close>

lemma set_set_insert: "set (set_insert a xs) = insert a (set xs)"
  by (simp add: set_insert_def insert_absorb set_insort_key)

lemma setAllocator_effect:
  "calls (snd (setAllocator name device_type g p w)) = calls w \<and>
   used_allocator (snd (setAllocator name device_type g p w)) = used_allocator w"
  by (auto simp: setAllocator_def Let_def split: option.splits prod.splits)

lemma recordStream_effect:
  "calls (snd (recordStream ptr stream w)) = calls w \<and>
   used_allocator (snd (recordStream ptr stream w)) = used_allocator w"
  by (auto simp: recordStream_def Let_def split: option.splits)

lemma createAllocator_effect:
  "\<exists>g. calls (snd (createAllocator x d w)) = calls w @ g \<and> (\<forall>c \<in> set g. is_constructor_call c)
     \<and> (\<forall>a \<in> set (used_allocator (snd (createAllocator x d w))).
           a \<in> set (used_allocator w) \<or> (\<exists>c \<in> set g. created_for_accelerator a c))
     \<and> (type d \<noteq> DIPU_DEVICE_TYPE \<longrightarrow>
           used_allocator (snd (createAllocator x d w)) = used_allocator w)"
  by (auto simp: createAllocator_def Let_def set_set_insert split: option.splits prod.splits)

lemma init_statics_effect:
  "calls (snd (init_statics x w)) = calls w \<and>
   used_allocator (snd (init_statics x w)) = used_allocator w"
  by (auto simp: init_statics_def Let_def split: option.splits)

lemma getAllocator_effect:
  "\<exists>g. calls (snd (getAllocator x d w)) = calls w @ g \<and> (\<forall>c \<in> set g. is_constructor_call c)
     \<and> (\<forall>a \<in> set (used_allocator (snd (getAllocator x d w))).
           a \<in> set (used_allocator w) \<or> (\<exists>c \<in> set g. created_for_accelerator a c))
     \<and> (type d \<noteq> DIPU_DEVICE_TYPE \<longrightarrow>
           used_allocator (snd (getAllocator x d w)) = used_allocator w)"
proof (cases "init_statics x w")
  case (Pair r w1)
  have w1: "calls w1 = calls w" "used_allocator w1 = used_allocator w"
    using init_statics_effect [of x w] Pair by simp_all
  show ?thesis
  proof (cases r)
    case (Inl e)
    with Pair w1 show ?thesis by (simp add: getAllocator_def and_then_def)
  next
    case (Inr ht)
    obtain host_index table where ht: "ht = (host_index, table)" by (cases ht)
    let ?i = "getDeviceIndex x d host_index"
    show ?thesis
    proof (cases "\<not> (?i < 0 \<or> int (length table) \<le> ?i) \<and> table ! nat ?i = nullptr")
      case False
      with Pair Inr ht w1 show ?thesis
        by (auto simp: getAllocator_def and_then_def Let_def)
    next
      case True
      from createAllocator_effect [of x d w1] obtain g where
        g: "calls (snd (createAllocator x d w1)) = calls w1 @ g"
           "\<forall>c \<in> set g. is_constructor_call c"
           "\<forall>a \<in> set (used_allocator (snd (createAllocator x d w1))).
              a \<in> set (used_allocator w1) \<or> (\<exists>c \<in> set g. created_for_accelerator a c)"
           "type d \<noteq> DIPU_DEVICE_TYPE \<longrightarrow>
              used_allocator (snd (createAllocator x d w1)) = used_allocator w1"
        by blast
      have eq: "calls (snd (getAllocator x d w)) = calls (snd (createAllocator x d w1))
            \<and> used_allocator (snd (getAllocator x d w))
                = used_allocator (snd (createAllocator x d w1))"
        using True Pair Inr ht
        by (cases "createAllocator x d w1")
           (auto simp: getAllocator_def and_then_def Let_def split: sum.splits)
      show ?thesis using g eq w1 by auto
    qed
  qed
qed

lemma delegate_effect:
  "\<exists>g post. calls (snd (delegate x device_type nbytes w)) = calls w @ g @ post
      \<and> (\<forall>c \<in> set g. is_constructor_call c)
      \<and> (post = [] \<or> (\<exists>a. post = [Allocate a nbytes]))
      \<and> (\<forall>a \<in> set (used_allocator (snd (delegate x device_type nbytes w))).
           a \<in> set (used_allocator w) \<or> (\<exists>c \<in> set g. created_for_accelerator a c))"
proof -
  let ?d = "Device_of device_type"
  from getAllocator_effect [of x ?d w] obtain g where
    g: "calls (snd (getAllocator x ?d w)) = calls w @ g" "\<forall>c \<in> set g. is_constructor_call c"
       "\<forall>a \<in> set (used_allocator (snd (getAllocator x ?d w))).
           a \<in> set (used_allocator w) \<or> (\<exists>c \<in> set g. created_for_accelerator a c)"
    by blast
  obtain r w3 where G: "getAllocator x ?d w = (r, w3)" by (cases "getAllocator x ?d w")
  have "\<exists>post. calls (snd (delegate x device_type nbytes w)) = calls w3 @ post
          \<and> (post = [] \<or> (\<exists>a. post = [Allocate a nbytes]))
          \<and> used_allocator (snd (delegate x device_type nbytes w)) = used_allocator w3"
    using G
    by (cases r)
       (auto simp: delegate_def getAllocator_type_def and_then_def call_ext_def)
  then obtain post where
    "calls (snd (delegate x device_type nbytes w)) = calls w3 @ post"
    "post = [] \<or> (\<exists>a. post = [Allocate a nbytes])"
    "used_allocator (snd (delegate x device_type nbytes w)) = used_allocator w3"
    by blast
  with g G have "calls (snd (delegate x device_type nbytes w)) = calls w @ g @ post
      \<and> (\<forall>c \<in> set g. is_constructor_call c)
      \<and> (post = [] \<or> (\<exists>a. post = [Allocate a nbytes]))
      \<and> (\<forall>a \<in> set (used_allocator (snd (delegate x device_type nbytes w))).
           a \<in> set (used_allocator w) \<or> (\<exists>c \<in> set g. created_for_accelerator a c))"
    by simp
  then show ?thesis by blast
qed

lemma accelerator_only_grow:
  assumes "accelerator_only w" and "calls w' = calls w @ g"
      and "\<forall>a \<in> set (used_allocator w').
             a \<in> set (used_allocator w) \<or> (\<exists>c \<in> set g'. created_for_accelerator a c)"
      and "set g' \<subseteq> set g"
  shows "accelerator_only w'"
  using assms unfolding accelerator_only_def
  by (metis Un_iff set_append subsetD)

lemma accelerator_only_delegate:
  assumes "accelerator_only w"
  shows "accelerator_only (snd (delegate x device_type nbytes w))"
proof -
  from delegate_effect [of x device_type nbytes w] obtain g post where
    "calls (snd (delegate x device_type nbytes w)) = calls w @ (g @ post)"
    "\<forall>a \<in> set (used_allocator (snd (delegate x device_type nbytes w))).
       a \<in> set (used_allocator w) \<or> (\<exists>c \<in> set g. created_for_accelerator a c)"
    by auto
  moreover have "set g \<subseteq> set (g @ post)" by simp
  ultimately show ?thesis using assms by (rule accelerator_only_grow [rotated])
qed

lemma accelerator_only_log:
  assumes "accelerator_only w"
  shows "accelerator_only (w\<lparr>calls := calls w @ g\<rparr>)"
  using assms by (auto simp: accelerator_only_def)

lemma allocate_cases:
  "\<exists>l. (snd (allocate x device_type nbytes w) = w\<lparr>calls := l\<rparr> \<or>
        snd (allocate x device_type nbytes w)
          = snd (delegate x device_type nbytes (w\<lparr>calls := l\<rparr>)))
       \<and> (\<exists>g. l = calls w @ g)"
proof -
  let ?rec = "EventRecord (getDefaultDIPUStream x)"
  let ?wait = "EventWait (getCurrentDIPUStream x)"
  consider (same) "getCurrentDIPUStream x = getDefaultDIPUStream x"
    | (rec_throws) "getCurrentDIPUStream x \<noteq> getDefaultDIPUStream x" "throws x (calls w) ?rec"
    | (wait_throws) "getCurrentDIPUStream x \<noteq> getDefaultDIPUStream x"
        "\<not> throws x (calls w) ?rec" "throws x (calls w @ [?rec]) ?wait"
    | (synced) "getCurrentDIPUStream x \<noteq> getDefaultDIPUStream x"
        "\<not> throws x (calls w) ?rec" "\<not> throws x (calls w @ [?rec]) ?wait"
    by blast
  then show ?thesis
  proof cases
    case same
    then have "snd (allocate x device_type nbytes w)
        = snd (delegate x device_type nbytes (w\<lparr>calls := calls w @ []\<rparr>))"
      by (simp add: allocate_def and_then_def Let_def)
    then show ?thesis by blast
  next
    case rec_throws
    then have "snd (allocate x device_type nbytes w) = w\<lparr>calls := calls w @ [?rec]\<rparr>"
      by (simp add: allocate_def and_then_def call_ext_def Let_def)
    then show ?thesis by blast
  next
    case wait_throws
    then have "snd (allocate x device_type nbytes w) = w\<lparr>calls := calls w @ [?rec, ?wait]\<rparr>"
      by (simp add: allocate_def and_then_def call_ext_def Let_def)
    then show ?thesis by blast
  next
    case synced
    then have "snd (allocate x device_type nbytes w) =
        snd (delegate x device_type nbytes (w\<lparr>calls := calls w @ [?rec, ?wait]\<rparr>))"
      by (simp add: allocate_def and_then_def call_ext_def Let_def)
    then show ?thesis by blast
  qed
qed

lemma accelerator_only_allocate:
  assumes "accelerator_only w"
  shows "accelerator_only (snd (allocate x device_type nbytes w))"
proof -
  from allocate_cases [of x device_type nbytes w] obtain l g where
    l: "snd (allocate x device_type nbytes w) = w\<lparr>calls := l\<rparr> \<or>
        snd (allocate x device_type nbytes w)
          = snd (delegate x device_type nbytes (w\<lparr>calls := l\<rparr>))"
       "l = calls w @ g"
    by blast
  have a: "accelerator_only (w\<lparr>calls := l\<rparr>)"
    unfolding l(2) using assms by (rule accelerator_only_log)
  from l(1) show ?thesis
  proof
    assume "snd (allocate x device_type nbytes w) = w\<lparr>calls := l\<rparr>"
    with a show ?thesis by simp
  next
    assume "snd (allocate x device_type nbytes w)
              = snd (delegate x device_type nbytes (w\<lparr>calls := l\<rparr>))"
    with a show ?thesis by (simp add: accelerator_only_delegate)
  qed
qed

lemma accelerator_only_getAllocator:
  assumes "accelerator_only w"
  shows "accelerator_only (snd (getAllocator x d w))"
proof -
  from getAllocator_effect [of x d w] obtain g where
    "calls (snd (getAllocator x d w)) = calls w @ g"
    "\<forall>a \<in> set (used_allocator (snd (getAllocator x d w))).
       a \<in> set (used_allocator w) \<or> (\<exists>c \<in> set g. created_for_accelerator a c)"
    by blast
  with assms show ?thesis by (rule accelerator_only_grow) simp
qed

lemma memory_stat_state:
  "\<exists>g. snd (memory_stat which x d w) =
         (snd (getAllocator x d w))\<lparr>calls := calls (snd (getAllocator x d w)) @ g\<rparr>"
proof -
  obtain r w1 where G: "getAllocator x d w = (r, w1)" by (cases "getAllocator x d w")
  have "snd (memory_stat which x d w) = w1\<lparr>calls := calls w1 @ []\<rparr> \<or>
        (\<exists>q. snd (memory_stat which x d w) = w1\<lparr>calls := calls w1 @ [q]\<rparr>)"
    using G by (cases r) (auto simp: memory_stat_def and_then_def call_ext_def Let_def)
  then have "\<exists>g. snd (memory_stat which x d w) = w1\<lparr>calls := calls w1 @ g\<rparr>"
    by blast
  moreover have "snd (getAllocator x d w) = w1" using G by simp
  ultimately show ?thesis by simp
qed

lemma accelerator_only_memory_stat:
  assumes "accelerator_only w"
  shows "accelerator_only (snd (memory_stat which x d w))"
proof -
  from memory_stat_state [of which x d w] obtain g where
    "snd (memory_stat which x d w) =
       (snd (getAllocator x d w))\<lparr>calls := calls (snd (getAllocator x d w)) @ g\<rparr>"
    by blast
  moreover have "accelerator_only (snd (getAllocator x d w))"
    using assms by (rule accelerator_only_getAllocator)
  ultimately show ?thesis by (simp add: accelerator_only_log)
qed

section \<open>What each operation does to the lookup table\<close>

lemma createAllocator_statics:
  "device_count (snd (createAllocator x d w)) = device_count w \<and>
   allocator_lookup_table (snd (createAllocator x d w)) = allocator_lookup_table w"
  by (auto simp: createAllocator_def Let_def split: option.splits prod.splits)

lemma slot_holds_getAllocator:
  assumes "slot_holds w dc i a" and "a \<noteq> nullptr"
  shows "slot_holds (snd (getAllocator x d w)) dc i a"
proof -
  from assms(1) obtain table where
    st: "device_count w = Some dc" "allocator_lookup_table w = Some table"
        "i < length table" "table ! i = a"
    by (auto simp: slot_holds_def split: option.splits)
  have init: "init_statics x w = (Inr (dc, table), w)"
    using st by (simp add: init_statics_def)
  let ?j = "getDeviceIndex x d dc"
  show ?thesis
  proof (cases "\<not> (?j < 0 \<or> int (length table) \<le> ?j) \<and> table ! nat ?j = nullptr")
    case False
    with init have "snd (getAllocator x d w) = w"
      by (auto simp: getAllocator_def and_then_def Let_def)
    with assms(1) show ?thesis by simp
  next
    case True
    with st assms(2) have ne: "nat ?j \<noteq> i" by auto
    obtain r w2 where C: "createAllocator x d w = (r, w2)" by (cases "createAllocator x d w")
    have w2: "device_count w2 = Some dc" "allocator_lookup_table w2 = Some table"
      using createAllocator_statics [of x d w] C st by simp_all
    show ?thesis
    proof (cases r)
      case (Inl e)
      with True init C have "snd (getAllocator x d w) = w2"
        by (simp add: getAllocator_def and_then_def Let_def)
      with w2 st show ?thesis by (simp add: slot_holds_def)
    next
      case (Inr allocator)
      with True init C have "snd (getAllocator x d w) =
          w2\<lparr>allocator_lookup_table := Some (table[nat ?j := allocator])\<rparr>"
        by (simp add: getAllocator_def and_then_def Let_def)
      with w2 st ne show ?thesis by (simp add: slot_holds_def)
    qed
  qed
qed

lemma delegate_statics:
  "device_count (snd (delegate x device_type nbytes w))
     = device_count (snd (getAllocator x (Device_of device_type) w)) \<and>
   allocator_lookup_table (snd (delegate x device_type nbytes w))
     = allocator_lookup_table (snd (getAllocator x (Device_of device_type) w))"
proof -
  obtain r w3 where G: "getAllocator x (Device_of device_type) w = (r, w3)"
    by (cases "getAllocator x (Device_of device_type) w")
  then show ?thesis
    by (cases r) (auto simp: delegate_def getAllocator_type_def and_then_def call_ext_def)
qed

lemma slot_holds_delegate:
  assumes "slot_holds w dc i a" and "a \<noteq> nullptr"
  shows "slot_holds (snd (delegate x device_type nbytes w)) dc i a"
  using slot_holds_getAllocator [OF assms, of x "Device_of device_type"]
        delegate_statics [of x device_type nbytes w]
  by (simp add: slot_holds_def)

lemma slot_holds_log:
  "slot_holds (w\<lparr>calls := l\<rparr>) dc i a = slot_holds w dc i a"
  by (simp add: slot_holds_def)

lemma slot_holds_allocate:
  assumes "slot_holds w dc i a" and "a \<noteq> nullptr"
  shows "slot_holds (snd (allocate x device_type nbytes w)) dc i a"
proof -
  from allocate_cases [of x device_type nbytes w] obtain l where
    "snd (allocate x device_type nbytes w) = w\<lparr>calls := l\<rparr> \<or>
     snd (allocate x device_type nbytes w) = snd (delegate x device_type nbytes (w\<lparr>calls := l\<rparr>))"
    by blast
  then show ?thesis
  proof
    assume "snd (allocate x device_type nbytes w) = w\<lparr>calls := l\<rparr>"
    with assms(1) show ?thesis by (simp add: slot_holds_log)
  next
    assume e: "snd (allocate x device_type nbytes w)
                 = snd (delegate x device_type nbytes (w\<lparr>calls := l\<rparr>))"
    have "slot_holds (w\<lparr>calls := l\<rparr>) dc i a" using assms(1) by (simp add: slot_holds_log)
    then show ?thesis unfolding e using assms(2) by (rule slot_holds_delegate)
  qed
qed

lemma memory_stat_statics:
  "device_count (snd (memory_stat which x d w)) = device_count (snd (getAllocator x d w)) \<and>
   allocator_lookup_table (snd (memory_stat which x d w))
     = allocator_lookup_table (snd (getAllocator x d w))"
proof -
  obtain r w1 where G: "getAllocator x d w = (r, w1)" by (cases "getAllocator x d w")
  then show ?thesis
    by (cases r) (auto simp: memory_stat_def and_then_def call_ext_def Let_def)
qed

lemma slot_holds_memory_stat:
  assumes "slot_holds w dc i a" and "a \<noteq> nullptr"
  shows "slot_holds (snd (memory_stat which x d w)) dc i a"
  using slot_holds_getAllocator [OF assms, of x d] memory_stat_statics [of which x d w]
  by (simp add: slot_holds_def)

lemma setAllocator_statics:
  "device_count (snd (setAllocator name device_type g p w)) = device_count w \<and>
   allocator_lookup_table (snd (setAllocator name device_type g p w))
     = allocator_lookup_table w"
  by (auto simp: setAllocator_def Let_def split: option.splits prod.splits)

lemma recordStream_statics:
  "device_count (snd (recordStream ptr stream w)) = device_count w \<and>
   allocator_lookup_table (snd (recordStream ptr stream w)) = allocator_lookup_table w"
  by (auto simp: recordStream_def Let_def split: option.splits)

section \<open>The global sweeps\<close>

lemma empty_allocator_cache_eq:
  "empty_allocator_cache x =
     (\<lambda>a w. if a \<noteq> nullptr \<and> is_CacheAllocator x a then call_ext x (EmptyCache a) w
            else (Inr (), w))"
  by (intro ext) (simp add: empty_allocator_cache_def dynamic_cast_CacheAllocator_def)

lemma release_allocator_memory_eq:
  "release_allocator_memory x =
     (\<lambda>a w. if a \<noteq> nullptr \<and> is_CacheAllocator x a then call_ext x (ReleaseAllMemory a) w
            else (Inr (), w))"
  by (intro ext) (simp add: release_allocator_memory_def dynamic_cast_CacheAllocator_def)


lemma for_each_effect:
  fixes c :: "Allocator_ptr \<Rightarrow> bool" and x :: ext and act :: "Allocator_ptr \<Rightarrow> action"
  defines "f \<equiv> (\<lambda>a w. if c a then call_ext x (act a) w else (Inr (), w))"
  shows "\<exists>g. snd (for_each f xs w) = w\<lparr>calls := calls w @ g\<rparr> \<and> set g \<subseteq> act ` set xs"
proof (induction xs arbitrary: w)
  case Nil
  have "snd (for_each f [] w) = w\<lparr>calls := calls w @ []\<rparr> \<and> set [] \<subseteq> act ` set []"
    by simp
  then show ?case by blast
next
  case (Cons b rest)
  show ?case
  proof (cases "c b \<and> \<not> throws x (calls w) (act b)")
    case True
    let ?w1 = "w\<lparr>calls := calls w @ [act b]\<rparr>"
    from True have "for_each f (b # rest) w = for_each f rest ?w1"
      by (simp add: f_def and_then_def call_ext_def)
    moreover from Cons.IH [of ?w1] obtain g where
      "snd (for_each f rest ?w1) = ?w1\<lparr>calls := calls ?w1 @ g\<rparr>" "set g \<subseteq> act ` set rest"
      by blast
    ultimately have "snd (for_each f (b # rest) w) = w\<lparr>calls := calls w @ (act b # g)\<rparr> \<and>
        set (act b # g) \<subseteq> act ` set (b # rest)"
      by auto
    then show ?thesis by blast
  next
    case False
    show ?thesis
    proof (cases "c b")
      case True
      with False
      have "for_each f (b # rest) w = (Inl (Thrown (act b)), w\<lparr>calls := calls w @ [act b]\<rparr>)"
        by (simp add: f_def and_then_def call_ext_def)
      then have "snd (for_each f (b # rest) w) = w\<lparr>calls := calls w @ [act b]\<rparr> \<and>
        set [act b] \<subseteq> act ` set (b # rest)"
        by simp
      then show ?thesis by blast
    next
      case nc: False
      then have "for_each f (b # rest) w = for_each f rest w"
        by (simp add: f_def and_then_def)
      moreover from Cons.IH [of w] obtain g where
        "snd (for_each f rest w) = w\<lparr>calls := calls w @ g\<rparr>" "set g \<subseteq> act ` set rest"
        by blast
      ultimately have "snd (for_each f (b # rest) w) = w\<lparr>calls := calls w @ g\<rparr> \<and>
        set g \<subseteq> act ` set (b # rest)"
        by auto
      then show ?thesis by blast
    qed
  qed
qed

lemma emptyCachedMem_effect:
  "\<exists>g. snd (emptyCachedMem x w) = w\<lparr>calls := calls w @ g\<rparr> \<and>
        set g \<subseteq> EmptyCache ` set (used_allocator w)"
  unfolding emptyCachedMem_def empty_allocator_cache_eq by (rule for_each_effect)

lemma releaseAllDeviceMem_effect:
  "\<exists>g. snd (releaseAllDeviceMem x w) = w\<lparr>calls := calls w @ g\<rparr> \<and>
        set g \<subseteq> ReleaseAllMemory ` set (used_allocator w)"
  unfolding releaseAllDeviceMem_def release_allocator_memory_eq by (rule for_each_effect)






section \<open>Invariants of a process\<close>

lemma accelerator_only_perform:
  assumes "accelerator_only w"
  shows "accelerator_only (perform x c w)"
proof (cases c)
  case (Call_setAllocator name device_type g p)
  with assms setAllocator_effect [of name device_type g p w] show ?thesis
    by (simp add: accelerator_only_def)
next
  case (Call_getAllocator device)
  with assms show ?thesis by (simp add: accelerator_only_getAllocator)
next
  case Call_emptyCachedMem
  from emptyCachedMem_effect [of x w] obtain g where
    "snd (emptyCachedMem x w) = w\<lparr>calls := calls w @ g\<rparr>" by blast
  with assms Call_emptyCachedMem show ?thesis by (simp add: accelerator_only_log)
next
  case Call_releaseAllDeviceMem
  from releaseAllDeviceMem_effect [of x w] obtain g where
    "snd (releaseAllDeviceMem x w) = w\<lparr>calls := calls w @ g\<rparr>" by blast
  with assms Call_releaseAllDeviceMem show ?thesis by (simp add: accelerator_only_log)
next
  case (Call_memoryReserved device)
  with assms show ?thesis by (simp add: memoryReserved_def accelerator_only_memory_stat)
next
  case (Call_memoryAllocated device)
  with assms show ?thesis by (simp add: memoryAllocated_def accelerator_only_memory_stat)
next
  case (Call_maxMemoryReserved device)
  with assms show ?thesis by (simp add: maxMemoryReserved_def accelerator_only_memory_stat)
next
  case (Call_maxMemoryAllocated device)
  with assms show ?thesis by (simp add: maxMemoryAllocated_def accelerator_only_memory_stat)
next
  case (Call_recordStream ptr stream)
  with assms recordStream_effect [of ptr stream w] show ?thesis
    by (simp add: accelerator_only_def)
next
  case (Call_allocate device_type nbytes)
  with assms show ?thesis by (simp add: accelerator_only_allocate)
qed

lemma accelerator_only_run:
  "accelerator_only w \<Longrightarrow> accelerator_only (run cs w)"
proof (induction cs arbitrary: w)
  case Nil
  then show ?case by simp
next
  case (Cons xc cs)
  obtain x c where "xc = (x, c)" by (cases xc)
  with Cons show ?case by (simp add: accelerator_only_perform)
qed

lemma accelerator_only_unused: "used_allocator w = [] \<Longrightarrow> accelerator_only w"
  by (simp add: accelerator_only_def)

lemma slot_holds_perform:
  assumes "slot_holds w dc i a" and "a \<noteq> nullptr"
  shows "slot_holds (perform x c w) dc i a"
proof (cases c)
  case (Call_setAllocator name device_type g p)
  with assms(1) setAllocator_statics [of name device_type g p w] show ?thesis
    by (simp add: slot_holds_def)
next
  case (Call_getAllocator device)
  with assms show ?thesis by (simp add: slot_holds_getAllocator)
next
  case Call_emptyCachedMem
  from emptyCachedMem_effect [of x w] obtain g where
    "snd (emptyCachedMem x w) = w\<lparr>calls := calls w @ g\<rparr>" by blast
  with assms(1) Call_emptyCachedMem show ?thesis by (simp add: slot_holds_log)
next
  case Call_releaseAllDeviceMem
  from releaseAllDeviceMem_effect [of x w] obtain g where
    "snd (releaseAllDeviceMem x w) = w\<lparr>calls := calls w @ g\<rparr>" by blast
  with assms(1) Call_releaseAllDeviceMem show ?thesis by (simp add: slot_holds_log)
next
  case (Call_memoryReserved device)
  with assms show ?thesis by (simp add: memoryReserved_def slot_holds_memory_stat)
next
  case (Call_memoryAllocated device)
  with assms show ?thesis by (simp add: memoryAllocated_def slot_holds_memory_stat)
next
  case (Call_maxMemoryReserved device)
  with assms show ?thesis by (simp add: maxMemoryReserved_def slot_holds_memory_stat)
next
  case (Call_maxMemoryAllocated device)
  with assms show ?thesis by (simp add: maxMemoryAllocated_def slot_holds_memory_stat)
next
  case (Call_recordStream ptr stream)
  with assms(1) recordStream_statics [of ptr stream w] show ?thesis
    by (simp add: slot_holds_def)
next
  case (Call_allocate device_type nbytes)
  with assms show ?thesis by (simp add: slot_holds_allocate)
qed

lemma slot_holds_run:
  "slot_holds w dc i a \<Longrightarrow> a \<noteq> nullptr \<Longrightarrow> slot_holds (run cs w) dc i a"
proof (induction cs arbitrary: w)
  case Nil
  then show ?case by simp
next
  case (Cons xc cs)
  obtain x c where "xc = (x, c)" by (cases xc)
  with Cons show ?case by (simp add: slot_holds_perform)
qed

lemma getAllocator_slot_holds:
  assumes "slot_holds w dc (nat (getDeviceIndex x device dc)) a" and "a \<noteq> nullptr"
      and "0 \<le> getDeviceIndex x device dc"
  shows "getAllocator x device w = (Inr a, w)"
proof -
  from assms(1) obtain table where
    st: "device_count w = Some dc" "allocator_lookup_table w = Some table"
        "nat (getDeviceIndex x device dc) < length table"
        "table ! nat (getDeviceIndex x device dc) = a"
    by (auto simp: slot_holds_def split: option.splits)
  have "init_statics x w = (Inr (dc, table), w)"
    using st by (simp add: init_statics_def)
  moreover have "getDeviceIndex x device dc < int (length table)"
    using st(3) assms(3) by linarith
  ultimately show ?thesis
    using st assms(2,3) by (simp add: getAllocator_def and_then_def)
qed

text \<open>
  C6. When a call of \<open>getAllocator\<close> has returned an allocator \<open>a\<close>, the slot of the lookup
  table holds \<open>a\<close>; and after any further calls of the file's entry points, a call of
  \<open>getAllocator\<close> that resolves to the same slot returns \<open>a\<close> and changes nothing: whatever
  the registry holds by then, no constructor is called and nothing is added to the log or
  to \<open>used_allocator\<close>.
\<close>

theorem getAllocator_memoized:
  assumes "getAllocator x device w = (Inr a, w1)" and "a \<noteq> nullptr"
      and "w2 = run later w1"
      and "getDeviceIndex x' device' (the (device_count w1)) =
           getDeviceIndex x device (the (device_count w1))"
  shows "getAllocator x' device' w2 = (Inr a, w2)
       \<and> slot_holds w1 (the (device_count w1))
            (nat (getDeviceIndex x device (the (device_count w1)))) a"
proof -
  from getAllocator_statics [OF assms(1)] obtain dc table where
    st: "device_count w1 = Some dc" "allocator_lookup_table w1 = Some table"
        "0 \<le> getDeviceIndex x device dc" "getDeviceIndex x device dc < int (length table)"
        "table ! nat (getDeviceIndex x device dc) = a"
    by blast
  let ?i = "nat (getDeviceIndex x device dc)"
  have s1: "slot_holds w1 dc ?i a"
    using st by (simp add: slot_holds_def)
  then have s2: "slot_holds w2 dc ?i a"
    unfolding assms(3) using assms(2) by (rule slot_holds_run)
  have same: "getDeviceIndex x' device' dc = getDeviceIndex x device dc"
    using assms(4) st(1) by simp
  have "getAllocator x' device' w2 = (Inr a, w2)"
    using s2 assms(2) st(3) same by (intro getAllocator_slot_holds [where dc = dc]) simp_all
  with s1 st(1) show ?thesis by simp
qed

lemma sample_first_call:
  "fst (getAllocator sample_ext (DIPU_device 0) registered_world) = Inr 1"
  by (simp add: eval_defs)

theorem getAllocator_memoized_witness:
  "fst (getAllocator sample_ext (DIPU_device 0) registered_world) = Inr 1
   \<and> (1 :: nat) \<noteq> nullptr
   \<and> getAllocator sample_ext (Device_of DIPU_DEVICE_TYPE)
       (run [(sample_ext, Call_getAllocator (DIPU_device 1)), (sample_ext, Call_emptyCachedMem)]
          (snd (getAllocator sample_ext (DIPU_device 0) registered_world)))
     = (Inr 1,
        run [(sample_ext, Call_getAllocator (DIPU_device 1)), (sample_ext, Call_emptyCachedMem)]
          (snd (getAllocator sample_ext (DIPU_device 0) registered_world)))"
proof -
  let ?w1 = "snd (getAllocator sample_ext (DIPU_device 0) registered_world)"
  have f: "fst (getAllocator sample_ext (DIPU_device 0) registered_world) = Inr 1"
    by (rule sample_first_call)
  then have h1: "getAllocator sample_ext (DIPU_device 0) registered_world = (Inr 1, ?w1)"
    by (simp add: prod_eq_iff)
  have h2: "(1 :: nat) \<noteq> nullptr" by simp
  have h4: "getDeviceIndex sample_ext (Device_of DIPU_DEVICE_TYPE) (the (device_count ?w1)) =
            getDeviceIndex sample_ext (DIPU_device 0) (the (device_count ?w1))"
    by (simp add: getDeviceIndex_def is_cpu_def has_index_def Device_of_def DIPU_device_def
          sample_ext_def)
  show ?thesis
    using f h2 getAllocator_memoized [OF h1 h2 refl h4, where later =
        "[(sample_ext, Call_getAllocator (DIPU_device 1)), (sample_ext, Call_emptyCachedMem)]"]
    by simp
qed

text \<open>
  C9. In every state that a process reaches from a state with an empty \<open>used_allocator\<close>,
  \<open>used_allocator\<close> holds only allocators that a constructor resolved for
  \<open>DIPU_DEVICE_TYPE\<close> returned. \<open>createAllocator\<close> and
  \<open>getAllocator\<close> for a device of any other type leave \<open>used_allocator\<close> as it is, and the
  two sweeps invoke their operation only on members of \<open>used_allocator\<close>.
\<close>

theorem used_allocator_accelerator_only:
  assumes "used_allocator w0 = []" and "w = run cs w0"
  shows "accelerator_only w
       \<and> (type device \<noteq> DIPU_DEVICE_TYPE \<longrightarrow>
            used_allocator (snd (createAllocator x device w)) = used_allocator w
            \<and> used_allocator (snd (getAllocator x device w)) = used_allocator w)
       \<and> set (drop (length (calls w)) (calls (snd (emptyCachedMem x w))))
            \<subseteq> EmptyCache ` set (used_allocator w)
       \<and> set (drop (length (calls w)) (calls (snd (releaseAllDeviceMem x w))))
            \<subseteq> ReleaseAllMemory ` set (used_allocator w)"
proof -
  have c1: "accelerator_only w"
    unfolding assms(2) using assms(1) by (intro accelerator_only_run accelerator_only_unused)
  from createAllocator_effect [of x device w]
  have c2: "type device \<noteq> DIPU_DEVICE_TYPE \<longrightarrow>
           used_allocator (snd (createAllocator x device w)) = used_allocator w"
    by blast
  from getAllocator_effect [of x device w]
  have c3: "type device \<noteq> DIPU_DEVICE_TYPE \<longrightarrow>
           used_allocator (snd (getAllocator x device w)) = used_allocator w"
    by blast
  from emptyCachedMem_effect [of x w] obtain g3 where
    "snd (emptyCachedMem x w) = w\<lparr>calls := calls w @ g3\<rparr>"
    "set g3 \<subseteq> EmptyCache ` set (used_allocator w)"
    by blast
  then have c4: "set (drop (length (calls w)) (calls (snd (emptyCachedMem x w))))
            \<subseteq> EmptyCache ` set (used_allocator w)"
    by simp
  from releaseAllDeviceMem_effect [of x w] obtain g4 where
    "snd (releaseAllDeviceMem x w) = w\<lparr>calls := calls w @ g4\<rparr>"
    "set g4 \<subseteq> ReleaseAllMemory ` set (used_allocator w)"
    by blast
  then have c5: "set (drop (length (calls w)) (calls (snd (releaseAllDeviceMem x w))))
            \<subseteq> ReleaseAllMemory ` set (used_allocator w)"
    by simp
  show ?thesis using c1 c2 c3 c4 c5 by blast
qed

lemma sample_calls_eval:
  "used_allocator (run sample_calls init_world) = [1, 2]"
  "allocator_lookup_table (run sample_calls init_world) = Some [1, 2, nullptr, 101]"
  by (simp_all add: sample_calls_def eval_defs eval_nat_numeral memory_stat_def
        emptyCachedMem_def empty_allocator_cache_def dynamic_cast_CacheAllocator_def
        call_ext_def allocate_def delegate_def getAllocator_type_def Device_of_def)

theorem used_allocator_accelerator_only_witness:
  "used_allocator init_world = []
   \<and> used_allocator (run sample_calls init_world) = [1, 2]
   \<and> allocator_lookup_table (run sample_calls init_world) = Some [1, 2, nullptr, 101]
   \<and> accelerator_only (run sample_calls init_world)
   \<and> type host_device \<noteq> DIPU_DEVICE_TYPE
   \<and> used_allocator (snd (getAllocator sample_ext host_device (run sample_calls init_world)))
       = [1, 2]"
proof -
  have t: "type host_device \<noteq> DIPU_DEVICE_TYPE" by (simp add: host_device_def)
  have u: "used_allocator init_world = []" by (simp add: init_world_def)
  show ?thesis
    using t u sample_calls_eval
      used_allocator_accelerator_only [OF u refl, where cs = sample_calls
        and x = sample_ext and device = host_device]
    by simp
qed

section \<open>The stream-ordering proxy\<close>







section \<open>Deferred reuse in the caching allocator\<close>












lemma cache_free_defers:
  "block_state st b = Live recs \<Longrightarrow> block_state (cache_free b st) b = Deferred recs"
  by (simp add: cache_free_def)







end
